theory Spec2Isabelle
  imports Complex_Main "HOL-Library.AList"
begin

section \<open>The in-memory rate limiter of rate-limiter.middleware.ts\<close>

text \<open>
  The middleware keeps one process-wide table \<open>rateLimitStore\<close> from keys to counter
  entries. A handler built by \<open>rateLimiter options\<close> derives a key from the request,
  looks the key up, opens a fresh window or increments the counter, sets the quota
  headers on the response and calls \<open>next\<close>. A timer sweeps expired entries.

  Numbers are JavaScript numbers in the source. The model takes counters, timestamps
  (\<open>Date.now()\<close>) and the policy's numbers as integers, which the source's arithmetic
  (\<open>+\<close>, \<open>-\<close>, \<open>\<le>\<close>, \<open>>\<close>) treats exactly below \<open>2^53\<close>; the one division,
  \<open>(entry.resetAt - now) / 1000\<close>, is taken in the rationals.
\<close>

subsection \<open>Data\<close>

record RateLimitEntry =
  count :: int
  resetAt :: int

record RateLimitOptions =
  windowMs :: int
  maxRequests :: int
  message :: "string option"

text \<open>
  \<open>rateLimitStore\<close> is a JavaScript \<open>Map\<close>: an insertion-ordered table with at most one
  entry per key. It is an association list; \<open>Map.get\<close> is \<^const>\<open>map_of\<close>, \<open>Map.set\<close> is
  \<^const>\<open>AList.update\<close> (an existing key keeps its place, a new key goes to the end) and
  \<open>Map.delete\<close> is \<^const>\<open>AList.delete\<close>. The keys of a \<open>Map\<close> are distinct.
\<close>

type_synonym store = "(string \<times> RateLimitEntry) list"

definition store_ok :: "store \<Rightarrow> bool" where
  "store_ok st = distinct (map fst st)"

text \<open>A value thrown by the host while a property of the request is read.\<close>

datatype js_error = JsError string

text \<open>
  The handler reads \<open>req.ip\<close>, \<open>req.socket.remoteAddress\<close> and \<open>req.path\<close>. Each read
  either throws (\<open>Inl\<close>) or yields a value; the two addresses may be \<open>undefined\<close>
  (\<open>None\<close>).
\<close>

record Request =
  ip :: "js_error + string option"
  remoteAddress :: "js_error + string option"
  path :: "js_error + string"

text \<open>The response is its header table; \<open>res.setHeader\<close> replaces a header of the same name.\<close>

type_synonym Response = "(string \<times> string) list"

definition setHeader :: "string \<Rightarrow> string \<Rightarrow> Response \<Rightarrow> Response" where
  "setHeader name v res = AList.update name v res"

definition getHeader :: "Response \<Rightarrow> string \<Rightarrow> string option" where
  "getHeader res name = map_of res name"

text \<open>
  Modelled from the spec: the class \<open>ApiError\<close> of \<open>./error.middleware\<close>, which the
  source imports and constructs as \<open>new ApiError(errorMessage, 429, {retryAfter: ...})\<close>.
  The spec describes it as a structured error carrying a message, an HTTP-style status and
  a machine-readable \<open>retryAfter\<close> field; the record keeps the three constructor arguments.
\<close>

record ApiError =
  errorMessage :: string
  statusCode :: int
  retryAfter :: int

text \<open>What the handler hands to \<open>next\<close>: nothing, the rate-limit error, or a caught exception.\<close>

datatype outcome = Next | NextRateError ApiError | NextCaught js_error

subsection \<open>Number to string, and the ceiling\<close>

text \<open>\<open>String(n)\<close> and template interpolation of an integer: its decimal digits, with a sign.\<close>

definition digit_char :: "nat \<Rightarrow> char" where
  "digit_char d = ''0123456789'' ! d"

fun digits10 :: "nat \<Rightarrow> string" where
  "digits10 n = (if n < 10 then [digit_char n] else digits10 (n div 10) @ [digit_char (n mod 10)])"

declare digits10.simps [simp del]

definition js_String :: "int \<Rightarrow> string" where
  "js_String i = (if i < 0 then CHR ''-'' # digits10 (nat (- i)) else digits10 (nat i))"

definition Math_ceil :: "rat \<Rightarrow> int" where
  "Math_ceil x = \<lceil>x\<rceil>"

subsection \<open>The background sweep (lines 23 to 30)\<close>

text \<open>
  \<open>rateLimitStore.forEach\<close> visits the entries in order and the callback deletes the
  visited key when its window has ended. Deleting the visited entry does not disturb the
  visit of the others, so the loop runs over the entries as they were at its start.
\<close>

definition sweep_entry :: "int \<Rightarrow> string \<times> RateLimitEntry \<Rightarrow> store \<Rightarrow> store" where
  "sweep_entry now ke st = (if resetAt (snd ke) \<le> now then AList.delete (fst ke) st else st)"

definition sweep :: "int \<Rightarrow> store \<Rightarrow> store" where
  "sweep now st = fold (sweep_entry now) st st"

subsection \<open>The handler (lines 33 to 86)\<close>

text \<open>\<open>a || rest\<close> on a string that may be \<open>undefined\<close>: \<open>undefined\<close> and \<open>''\<close> are falsy.\<close>

definition js_or :: "string option \<Rightarrow> (js_error + string) \<Rightarrow> js_error + string" where
  "js_or v rest = (case v of None \<Rightarrow> rest | Some s \<Rightarrow> if s = [] then rest else Inr s)"

definition bind_read :: "js_error + 'a \<Rightarrow> ('a \<Rightarrow> js_error + 'b) \<Rightarrow> js_error + 'b" where
  "bind_read r f = (case r of Inl e \<Rightarrow> Inl e | Inr v \<Rightarrow> f v)"

text \<open>Line 36: \<open>req.ip || req.socket.remoteAddress || 'unknown'\<close>.\<close>

definition resolve_ip :: "Request \<Rightarrow> js_error + string" where
  "resolve_ip req =
     bind_read (ip req) (\<lambda>a.
       js_or a (bind_read (remoteAddress req) (\<lambda>b. js_or b (Inr ''unknown''))))"

text \<open>Line 37: the key \<open>`${ip}:${req.path}`\<close>.\<close>

definition make_key :: "string \<Rightarrow> string \<Rightarrow> string" where
  "make_key i p = i @ '':'' @ p"

definition request_key :: "Request \<Rightarrow> js_error + string" where
  "request_key req =
     bind_read (resolve_ip req) (\<lambda>i. bind_read (path req) (\<lambda>p. Inr (make_key i p)))"

text \<open>Lines 65 to 67: the seconds until the window ends and the message of the error.\<close>

definition resetInSeconds :: "RateLimitEntry \<Rightarrow> int \<Rightarrow> int" where
  "resetInSeconds entry now = Math_ceil (of_int (resetAt entry - now) / 1000)"

definition default_message :: "int \<Rightarrow> string" where
  "default_message secs =
     ''Too many requests, please try again in '' @ js_String secs @ '' seconds''"

definition error_message :: "RateLimitOptions \<Rightarrow> int \<Rightarrow> string" where
  "error_message options secs =
     (case message options of
        None \<Rightarrow> default_message secs
      | Some m \<Rightarrow> if m = [] then default_message secs else m)"

text \<open>
  Lines 38 to 80, for a key already derived: the table and the response go in, and the
  updated table, the updated response and the call of \<open>next\<close> come out.
\<close>

definition limit_key ::
  "RateLimitOptions \<Rightarrow> string \<Rightarrow> Response \<Rightarrow> int \<Rightarrow> store \<Rightarrow> store \<times> Response \<times> outcome" where
  "limit_key options key res now st =
     (let fresh = \<lparr>count = 1, resetAt = now + windowMs options\<rparr>;
          open_window =
            (AList.update key fresh st,
             setHeader ''X-RateLimit-Reset'' (js_String (resetAt fresh))
               (setHeader ''X-RateLimit-Remaining'' (js_String (maxRequests options - 1))
                 (setHeader ''X-RateLimit-Limit'' (js_String (maxRequests options)) res)),
             Next)
      in case map_of st key of
        None \<Rightarrow> open_window
      | Some old \<Rightarrow>
          if resetAt old \<le> now then open_window
          else
            let entry = old\<lparr>count := count old + 1\<rparr>;
                st' = AList.update key entry st;
                res' =
                  setHeader ''X-RateLimit-Reset'' (js_String (resetAt entry))
                    (setHeader ''X-RateLimit-Remaining''
                       (js_String (max 0 (maxRequests options - count entry)))
                      (setHeader ''X-RateLimit-Limit'' (js_String (maxRequests options)) res))
            in if count entry > maxRequests options then
                 let secs = resetInSeconds entry now;
                     rateError = \<lparr>errorMessage = error_message options secs,
                                  statusCode = 429, retryAfter = secs\<rparr>
                 in (st', setHeader ''Retry-After'' (js_String secs) res', NextRateError rateError)
               else (st', res', Next))"

text \<open>
  The body of the \<open>try\<close> block: the reads that derive the key may throw, and they come
  before the table or the response is touched.
\<close>

definition rateLimiter_try ::
  "RateLimitOptions \<Rightarrow> Request \<Rightarrow> Response \<Rightarrow> int \<Rightarrow> store
     \<Rightarrow> js_error + (store \<times> Response \<times> outcome)" where
  "rateLimiter_try options req res now st =
     bind_read (request_key req) (\<lambda>key. Inr (limit_key options key res now st))"

text \<open>The handler: the \<open>catch\<close> clause passes a thrown value to \<open>next\<close>.\<close>

definition rateLimiter ::
  "RateLimitOptions \<Rightarrow> Request \<Rightarrow> Response \<Rightarrow> int \<Rightarrow> store \<Rightarrow> store \<times> Response \<times> outcome" where
  "rateLimiter options req res now st =
     (case rateLimiter_try options req res now st of
        Inl e \<Rightarrow> (st, res, NextCaught e)
      | Inr r \<Rightarrow> r)"

text \<open>The predefined limiters (lines 89 to 99).\<close>

definition standardLimiter :: RateLimitOptions where
  "standardLimiter = \<lparr>windowMs = 60 * 1000, maxRequests = 60,
     message = Some ''Too many requests from this IP, please try again after a minute''\<rparr>"

definition authLimiter :: RateLimitOptions where
  "authLimiter = \<lparr>windowMs = 15 * 60 * 1000, maxRequests = 10,
     message = Some ''Too many authentication attempts, please try again after 15 minutes''\<rparr>"

subsection \<open>The handler on a host that may fail\<close>

text \<open>
  Inside the \<open>try\<close> block the handler also calls into its host: \<open>res.setHeader\<close>,
  \<open>new ApiError\<close> and \<open>next\<close>. A host says what each of these calls does: \<open>setHeader\<close>
  and the constructor yield a value or throw, and the \<open>n\<close>-th call of \<open>next\<close> within one
  request returns (\<open>None\<close>) or throws.
\<close>

record host =
  host_setHeader :: "string \<Rightarrow> string \<Rightarrow> Response \<Rightarrow> js_error + Response"
  host_ApiError :: "string \<Rightarrow> int \<Rightarrow> int \<Rightarrow> js_error + ApiError"
  host_next :: "nat \<Rightarrow> outcome \<Rightarrow> js_error option"

text \<open>
  What a request has done so far: the table, the response and the calls of \<open>next\<close> made,
  in order. A step either yields a value or throws, and leaves the world it reached.
\<close>

record world =
  the_store :: store
  the_response :: Response
  next_calls :: "outcome list"

definition then_step ::
  "(world \<Rightarrow> (js_error + 'a) \<times> world) \<Rightarrow> ('a \<Rightarrow> world \<Rightarrow> (js_error + 'b) \<times> world)
     \<Rightarrow> world \<Rightarrow> (js_error + 'b) \<times> world" where
  "then_step m f w = (case m w of (Inl e, w') \<Rightarrow> (Inl e, w') | (Inr a, w') \<Rightarrow> f a w')"

definition do_read :: "js_error + 'a \<Rightarrow> world \<Rightarrow> (js_error + 'a) \<times> world" where
  "do_read r w = (r, w)"

definition do_set :: "string \<Rightarrow> RateLimitEntry \<Rightarrow> world \<Rightarrow> (js_error + unit) \<times> world" where
  "do_set key entry w = (Inr (), w\<lparr>the_store := AList.update key entry (the_store w)\<rparr>)"

definition do_setHeader :: "host \<Rightarrow> string \<Rightarrow> string \<Rightarrow> world \<Rightarrow> (js_error + unit) \<times> world" where
  "do_setHeader h name v w =
     (case host_setHeader h name v (the_response w) of
        Inl e \<Rightarrow> (Inl e, w)
      | Inr r \<Rightarrow> (Inr (), w\<lparr>the_response := r\<rparr>))"

text \<open>
  A call of \<open>next\<close> is recorded whether it returns or throws.
\<close>

definition do_next :: "host \<Rightarrow> outcome \<Rightarrow> world \<Rightarrow> (js_error + unit) \<times> world" where
  "do_next h arg w =
     (case host_next h (length (next_calls w)) arg of
        None \<Rightarrow> (Inr (), w\<lparr>next_calls := next_calls w @ [arg]\<rparr>)
      | Some e \<Rightarrow> (Inl e, w\<lparr>next_calls := next_calls w @ [arg]\<rparr>))"

text \<open>
  The \<open>try\<close> block, statement by statement (lines 36 to 80): the key is derived, the
  table is written, the three headers are set, and \<open>next\<close> is called, after the error was
  built and \<open>Retry-After\<close> set when the count is over the ceiling. The first throw ends
  the block.
\<close>

definition rateLimiter_host_try ::
  "host \<Rightarrow> RateLimitOptions \<Rightarrow> Request \<Rightarrow> int \<Rightarrow> world \<Rightarrow> (js_error + unit) \<times> world" where
  "rateLimiter_host_try h options req now =
     then_step (do_read (request_key req)) (\<lambda>key w.
       let fresh = \<lparr>count = 1, resetAt = now + windowMs options\<rparr>;
           open_window =
             then_step (do_set key fresh) (\<lambda>_.
             then_step (do_setHeader h ''X-RateLimit-Limit'' (js_String (maxRequests options))) (\<lambda>_.
             then_step (do_setHeader h ''X-RateLimit-Remaining''
                          (js_String (maxRequests options - 1))) (\<lambda>_.
             then_step (do_setHeader h ''X-RateLimit-Reset'' (js_String (resetAt fresh))) (\<lambda>_.
             do_next h Next))))
       in case map_of (the_store w) key of
         None \<Rightarrow> open_window w
       | Some old \<Rightarrow>
           if resetAt old \<le> now then open_window w
           else
             let entry = old\<lparr>count := count old + 1\<rparr> in
             (then_step (do_set key entry) (\<lambda>_.
              then_step (do_setHeader h ''X-RateLimit-Limit'' (js_String (maxRequests options))) (\<lambda>_.
              then_step (do_setHeader h ''X-RateLimit-Remaining''
                           (js_String (max 0 (maxRequests options - count entry)))) (\<lambda>_.
              then_step (do_setHeader h ''X-RateLimit-Reset'' (js_String (resetAt entry))) (\<lambda>_.
                if count entry > maxRequests options then
                  let secs = resetInSeconds entry now in
                  then_step (do_read (host_ApiError h (error_message options secs) 429 secs))
                    (\<lambda>rateError.
                  then_step (do_setHeader h ''Retry-After'' (js_String secs)) (\<lambda>_.
                  do_next h (NextRateError rateError)))
                else do_next h Next))))) w)"

text \<open>
  The handler on a fresh response and no call of \<open>next\<close> yet: the \<open>catch\<close> clause
  (line 83) calls \<open>next(error)\<close>; what that call throws leaves the handler (\<open>Some\<close>).
\<close>

definition rateLimiter_host ::
  "host \<Rightarrow> RateLimitOptions \<Rightarrow> Request \<Rightarrow> Response \<Rightarrow> int \<Rightarrow> store
     \<Rightarrow> world \<times> js_error option" where
  "rateLimiter_host h options req res now st =
     (case rateLimiter_host_try h options req now
             \<lparr>the_store = st, the_response = res, next_calls = []\<rparr> of
        (Inr _, w) \<Rightarrow> (w, None)
      | (Inl e, w) \<Rightarrow>
          (case do_next h (NextCaught e) w of
             (Inr _, w') \<Rightarrow> (w', None)
           | (Inl e', w') \<Rightarrow> (w', Some e')))"

text \<open>
  The host on which nothing throws: \<open>setHeader\<close> replaces the header, the constructor
  keeps its three arguments, \<open>next\<close> returns.
\<close>

definition quiet_host :: host where
  "quiet_host =
     \<lparr>host_setHeader = (\<lambda>name v res. Inr (setHeader name v res)),
      host_ApiError = (\<lambda>msg status secs.
        Inr \<lparr>errorMessage = msg, statusCode = status, retryAfter = secs\<rparr>),
      host_next = (\<lambda>n arg. None)\<rparr>"


subsection \<open>Sequences of requests\<close>

text \<open>
  A call is one request arriving at one handler: the handler's policy, the request, its
  response object and the clock reading. The table is threaded from call to call; each
  call yields its response and what was passed to \<open>next\<close>.
\<close>

type_synonym call = "RateLimitOptions \<times> Request \<times> Response \<times> int"

fun run :: "call list \<Rightarrow> store \<Rightarrow> (Response \<times> outcome) list" where
  "run [] st = []"
| "run ((options, req, res, now) # cs) st =
     (case rateLimiter options req res now st of
        (st', res', out) \<Rightarrow> (res', out) # run cs st')"

fun final_store :: "call list \<Rightarrow> store \<Rightarrow> store" where
  "final_store [] st = st"
| "final_store ((options, req, res, now) # cs) st =
     final_store cs (fst (rateLimiter options req res now st))"

text \<open>The test of line 41, \<open>!entry || entry.resetAt <= now\<close>: the request opens a window.\<close>

definition opens_window :: "store \<Rightarrow> string \<Rightarrow> int \<Rightarrow> bool" where
  "opens_window st key now = (case map_of st key of None \<Rightarrow> True | Some e \<Rightarrow> resetAt e \<le> now)"

definition call_key :: "call \<Rightarrow> js_error + string" where
  "call_key c = request_key (fst (snd c))"

definition call_now :: "call \<Rightarrow> int" where
  "call_now c = snd (snd (snd c))"


text \<open>A denial: \<open>next\<close> received the rate-limit error, with the given status.\<close>

definition denied_with :: "int \<Rightarrow> outcome \<Rightarrow> bool" where
  "denied_with status out =
     (case out of NextRateError err \<Rightarrow> statusCode err = status | _ \<Rightarrow> False)"

subsection \<open>Auxiliary notions for the proofs\<close>

text \<open>
  What the handler sees of an entry at time \<open>t\<close> (an entry whose window has ended counts
  as no entry), and the entry it stores for a key given what it saw.
\<close>

definition live_at :: "int \<Rightarrow> RateLimitEntry option \<Rightarrow> RateLimitEntry option" where
  "live_at t v = (case v of None \<Rightarrow> None | Some e \<Rightarrow> if resetAt e \<le> t then None else Some e)"

definition step_entry :: "RateLimitOptions \<Rightarrow> int \<Rightarrow> RateLimitEntry option \<Rightarrow> RateLimitEntry" where
  "step_entry options now v =
     (case v of None \<Rightarrow> \<lparr>count = 1, resetAt = now + windowMs options\<rparr>
      | Some old \<Rightarrow> old\<lparr>count := count old + 1\<rparr>)"

subsection \<open>Inputs of the worked examples\<close>

text \<open>The policy of the spec's scenario, and a request with an address and a path.\<close>

definition scenario_policy :: RateLimitOptions where
  "scenario_policy = \<lparr>windowMs = 60000, maxRequests = 2, message = None\<rparr>"

definition request_from :: "string \<Rightarrow> string \<Rightarrow> Request" where
  "request_from a p = \<lparr>ip = Inr (Some a), remoteAddress = Inr None, path = Inr p\<rparr>"



section \<open>Evaluation rules\<close>

lemma digits10_small: "n < 10 \<Longrightarrow> digits10 n = [digit_char n]"
  by (simp add: digits10.simps)

lemma digits10_big: "\<not> n < 10 \<Longrightarrow> digits10 n = digits10 (n div 10) @ [digit_char (n mod 10)]"
  by (subst digits10.simps) simp

lemmas js_String_eval = js_String_def digits10_small digits10_big digit_char_def

text \<open>The ceiling of the rational quotient, in integer arithmetic.\<close>

lemma resetInSeconds_int: "resetInSeconds e now = - ((now - resetAt e) div 1000)"
  unfolding resetInSeconds_def Math_ceil_def
  using ceiling_divide_eq_div [of "resetAt e - now" 1000, where ?'a = rat] by simp

lemmas handler_eval =
  rateLimiter_def rateLimiter_try_def request_key_def resolve_ip_def bind_read_def js_or_def
  make_key_def limit_key_def Let_def setHeader_def getHeader_def resetInSeconds_int
  error_message_def default_message_def

section \<open>The table stays a table\<close>

lemma store_ok_update: "store_ok st \<Longrightarrow> store_ok (AList.update k v st)"
  by (simp add: store_ok_def distinct_update)

lemma store_ok_limit_key: "store_ok st \<Longrightarrow> store_ok (fst (limit_key options key res now st))"
  by (auto simp: limit_key_def Let_def store_ok_update split: option.splits)

lemma rateLimiter_resolved:
  "request_key req = Inr key \<Longrightarrow>
   rateLimiter options req res now st = limit_key options key res now st"
  by (simp add: rateLimiter_def rateLimiter_try_def bind_read_def)

lemma rateLimiter_thrown:
  "request_key req = Inl e \<Longrightarrow> rateLimiter options req res now st = (st, res, NextCaught e)"
  by (simp add: rateLimiter_def rateLimiter_try_def bind_read_def)

lemma store_ok_rateLimiter:
  assumes "store_ok st"
  shows "store_ok (fst (rateLimiter options req res now st))"
proof (cases "request_key req")
  case (Inl e)
  then show ?thesis using assms by (simp add: rateLimiter_thrown)
next
  case (Inr key)
  then show ?thesis using assms by (simp add: rateLimiter_resolved store_ok_limit_key)
qed

text \<open>The table starts empty, so every table that requests produce has distinct keys.\<close>

lemma store_ok_empty: "store_ok []"
  by (simp add: store_ok_def)

lemma store_ok_final_store: "store_ok st \<Longrightarrow> store_ok (final_store calls st)"
  by (induction calls arbitrary: st) (auto simp: store_ok_rateLimiter)

section \<open>The sweep\<close>

lemma sweep_entry_filter:
  "fold (sweep_entry now) xs st =
     filter (\<lambda>ke. \<not> (\<exists>y \<in> set xs. fst y = fst ke \<and> resetAt (snd y) \<le> now)) st"
proof (induction xs arbitrary: st)
  case Nil
  then show ?case by simp
next
  case (Cons x xs)
  have "fold (sweep_entry now) (x # xs) st = fold (sweep_entry now) xs (sweep_entry now x st)"
    by simp
  also have "\<dots> =
      filter (\<lambda>ke. \<not> (\<exists>y \<in> set xs. fst y = fst ke \<and> resetAt (snd y) \<le> now))
        (sweep_entry now x st)"
    by (rule Cons.IH)
  also have "\<dots> =
      filter (\<lambda>ke. \<not> (\<exists>y \<in> set (x # xs). fst y = fst ke \<and> resetAt (snd y) \<le> now)) st"
    by (auto simp: sweep_entry_def AList.delete_eq intro!: filter_cong)
  finally show ?case .
qed

lemma sweep_filter:
  assumes "store_ok st"
  shows "sweep now st = filter (\<lambda>ke. \<not> resetAt (snd ke) \<le> now) st"
proof -
  have "\<And>ke. ke \<in> set st \<Longrightarrow>
      (\<exists>y \<in> set st. fst y = fst ke \<and> resetAt (snd y) \<le> now) = (resetAt (snd ke) \<le> now)"
    using assms unfolding store_ok_def
    by (metis eq_key_imp_eq_value prod.collapse)
  then show ?thesis
    unfolding sweep_def sweep_entry_filter by (auto intro!: filter_cong)
qed

lemma map_of_filter_entries:
  "distinct (map fst st) \<Longrightarrow>
   map_of (filter (\<lambda>ke. P (snd ke)) st) k =
     (case map_of st k of None \<Rightarrow> None | Some e \<Rightarrow> if P e then Some e else None)"
  by (induction st) (auto split: option.splits simp: map_of_eq_None_iff image_iff)

lemma map_of_sweep:
  assumes "store_ok st"
  shows "map_of (sweep now st) k =
     (case map_of st k of None \<Rightarrow> None | Some e \<Rightarrow> if resetAt e \<le> now then None else Some e)"
proof -
  have "map_of (filter (\<lambda>ke. \<not> resetAt (snd ke) \<le> now) st) k =
     (case map_of st k of None \<Rightarrow> None
      | Some e \<Rightarrow> if \<not> resetAt e \<le> now then Some e else None)"
    using assms unfolding store_ok_def by (rule map_of_filter_entries)
  then show ?thesis
    using assms by (simp add: sweep_filter split: option.splits)
qed

lemma store_ok_sweep: "store_ok st \<Longrightarrow> store_ok (sweep now st)"
  by (simp add: sweep_filter) (simp add: store_ok_def distinct_map_filter)

section \<open>One request\<close>

lemma getHeader_setHeader:
  "getHeader (setHeader n v res) m = (if m = n then Some v else getHeader res m)"
  by (simp add: getHeader_def setHeader_def update_conv')

lemma resetInSeconds_count [simp]: "resetInSeconds (e\<lparr>count := c\<rparr>) now = resetInSeconds e now"
  by (simp add: resetInSeconds_def)

lemma limit_key_opens:
  assumes "opens_window st key now"
  shows "limit_key options key res now st =
    (AList.update key \<lparr>count = 1, resetAt = now + windowMs options\<rparr> st,
     setHeader ''X-RateLimit-Reset'' (js_String (now + windowMs options))
       (setHeader ''X-RateLimit-Remaining'' (js_String (maxRequests options - 1))
         (setHeader ''X-RateLimit-Limit'' (js_String (maxRequests options)) res)),
     Next)"
  using assms by (auto simp: limit_key_def opens_window_def Let_def split: option.splits)

lemma limit_key_counts:
  assumes "map_of st key = Some old" and "now < resetAt old"
  shows "limit_key options key res now st =
    (AList.update key (old\<lparr>count := count old + 1\<rparr>) st,
     (if maxRequests options < count old + 1
      then setHeader ''Retry-After'' (js_String (resetInSeconds old now)) else (\<lambda>r. r))
       (setHeader ''X-RateLimit-Reset'' (js_String (resetAt old))
         (setHeader ''X-RateLimit-Remaining'' (js_String (max 0 (maxRequests options - (count old + 1))))
           (setHeader ''X-RateLimit-Limit'' (js_String (maxRequests options)) res))),
     (if maxRequests options < count old + 1
      then NextRateError \<lparr>errorMessage = error_message options (resetInSeconds old now),
             statusCode = 429, retryAfter = resetInSeconds old now\<rparr>
      else Next))"
  using assms by (simp add: limit_key_def Let_def)

lemma opens_window_cases:
  "opens_window st key now \<or> (\<exists>old. map_of st key = Some old \<and> now < resetAt old)"
  by (auto simp: opens_window_def split: option.splits)

lemma opens_window_live: "opens_window st key now = (live_at now (map_of st key) = None)"
  by (auto simp: opens_window_def live_at_def split: option.splits)

lemma limit_key_store:
  "map_of (fst (limit_key options key res now st)) =
     (map_of st)(key \<mapsto> step_entry options now (live_at now (map_of st key)))"
  using opens_window_cases [of st key now]
  by (auto simp: limit_key_opens limit_key_counts update_conv' step_entry_def live_at_def
      opens_window_def split: option.splits)

lemma limit_key_frame:
  "k \<noteq> key \<Longrightarrow> map_of (fst (limit_key options key res now st)) k = map_of st k"
  by (simp add: limit_key_store)

lemma limit_key_output:
  assumes "live_at now (map_of st1 key) = live_at now (map_of st2 key)"
  shows "snd (limit_key options key res now st1) = snd (limit_key options key res now st2)"
proof (cases "opens_window st1 key now")
  case True
  then have "opens_window st2 key now" using assms by (simp add: opens_window_live)
  with True show ?thesis by (simp add: limit_key_opens)
next
  case False
  then obtain old where o: "map_of st1 key = Some old" "now < resetAt old"
    using opens_window_cases [of st1 key now] by blast
  then have "map_of st2 key = Some old"
    using assms by (auto simp: live_at_def split: option.splits if_splits)
  with o show ?thesis by (simp add: limit_key_counts)
qed


subsection \<open>Keys, and what a request touches\<close>

lemma make_key_inj:
  assumes "CHR ''/'' \<notin> set i1" and "CHR ''/'' \<notin> set i2"
    and "take 1 p1 = ''/''" and "take 1 p2 = ''/''"
    and "make_key i1 p1 = make_key i2 p2"
  shows "i1 = i2 \<and> p1 = p2"
proof -
  obtain q1 where q1: "p1 = CHR ''/'' # q1" using assms(3) by (cases p1) auto
  obtain q2 where q2: "p2 = CHR ''/'' # q2" using assms(4) by (cases p2) auto
  have eq: "(i1 @ '':'') @ CHR ''/'' # q1 = (i2 @ '':'') @ CHR ''/'' # q2"
    using assms(5) by (simp add: make_key_def q1 q2)
  have t1: "takeWhile (\<lambda>c. c \<noteq> CHR ''/'') ((i1 @ '':'') @ CHR ''/'' # q1) = i1 @ '':''"
    using assms(1) by (subst takeWhile_append2) auto
  have t2: "takeWhile (\<lambda>c. c \<noteq> CHR ''/'') ((i2 @ '':'') @ CHR ''/'' # q2) = i2 @ '':''"
    using assms(2) by (subst takeWhile_append2) auto
  have "i1 @ '':'' = i2 @ '':''" using eq t1 t2 by simp
  then have "i1 = i2" by simp
  with eq show ?thesis by (simp add: q1 q2)
qed

lemma request_key_parts:
  "resolve_ip req = Inr i \<Longrightarrow> path req = Inr p \<Longrightarrow> request_key req = Inr (make_key i p)"
  by (simp add: request_key_def bind_read_def)

lemma rateLimiter_frame:
  assumes "request_key req \<noteq> Inr k"
  shows "map_of (fst (rateLimiter options req res now st)) k = map_of st k"
proof (cases "request_key req")
  case (Inl e)
  then show ?thesis by (simp add: rateLimiter_thrown)
next
  case (Inr key)
  with assms have "k \<noteq> key" by auto
  with Inr show ?thesis by (simp add: rateLimiter_resolved limit_key_frame)
qed

lemma rateLimiter_output:
  assumes "request_key req = Inr key"
    and "live_at now (map_of st1 key) = live_at now (map_of st2 key)"
  shows "snd (rateLimiter options req res now st1) = snd (rateLimiter options req res now st2)"
proof -
  have "snd (limit_key options key res now st1) = snd (limit_key options key res now st2)"
    using assms(2) by (rule limit_key_output)
  then show ?thesis
    by (simp add: rateLimiter_resolved [OF assms(1)])
qed

section \<open>Sequences of requests\<close>

lemma run_Cons:
  "run ((options, req, res, now) # cs) st =
     snd (rateLimiter options req res now st) # run cs (fst (rateLimiter options req res now st))"
  by (simp split: prod.splits)

lemma live_at_later:
  assumes "ts \<le> now" and "live_at ts x = live_at ts y"
  shows "live_at now x = live_at now y"
  using assms by (auto simp: live_at_def split: option.splits if_splits)

lemma rateLimiter_store:
  "request_key req = Inr key \<Longrightarrow>
   map_of (fst (rateLimiter options req res now st)) =
     (map_of st)(key \<mapsto> step_entry options now (live_at now (map_of st key)))"
  by (simp add: rateLimiter_resolved limit_key_store)

lemma rateLimiter_same_live:
  assumes rel: "\<And>k. live_at ts (map_of st1 k) = live_at ts (map_of st2 k)"
    and le: "ts \<le> now"
  shows "snd (rateLimiter options req res now st1) = snd (rateLimiter options req res now st2)"
    and "live_at ts (map_of (fst (rateLimiter options req res now st1)) k) =
         live_at ts (map_of (fst (rateLimiter options req res now st2)) k)"
proof -
  show "snd (rateLimiter options req res now st1) = snd (rateLimiter options req res now st2)"
  proof (cases "request_key req")
    case (Inl e)
    then show ?thesis by (simp add: rateLimiter_thrown)
  next
    case (Inr key)
    have "live_at now (map_of st1 key) = live_at now (map_of st2 key)"
      using le rel by (rule live_at_later)
    with Inr show ?thesis by (rule rateLimiter_output)
  qed
  show "live_at ts (map_of (fst (rateLimiter options req res now st1)) k) =
         live_at ts (map_of (fst (rateLimiter options req res now st2)) k)"
  proof (cases "request_key req")
    case (Inl e)
    then show ?thesis by (simp add: rateLimiter_thrown rel)
  next
    case (Inr key)
    have "live_at now (map_of st1 key) = live_at now (map_of st2 key)"
      using le rel by (rule live_at_later)
    then show ?thesis
      by (simp add: rateLimiter_store [OF Inr] rel)
  qed
qed

lemma run_same_live:
  assumes "\<And>k. live_at ts (map_of st1 k) = live_at ts (map_of st2 k)"
    and "\<forall>c \<in> set calls. ts \<le> call_now c"
  shows "run calls st1 = run calls st2"
  using assms
proof (induction calls arbitrary: st1 st2)
  case Nil
  then show ?case by simp
next
  case (Cons c calls)
  obtain options req res now where c: "c = (options, req, res, now)"
    by (cases c) auto
  have le: "ts \<le> now" using Cons.prems(2) by (simp add: c call_now_def)
  have out: "snd (rateLimiter options req res now st1) = snd (rateLimiter options req res now st2)"
    using Cons.prems(1) le by (rule rateLimiter_same_live(1))
  have rel: "\<And>k. live_at ts (map_of (fst (rateLimiter options req res now st1)) k) =
         live_at ts (map_of (fst (rateLimiter options req res now st2)) k)"
    using Cons.prems(1) le by (rule rateLimiter_same_live(2))
  have rest: "run calls (fst (rateLimiter options req res now st1)) =
      run calls (fst (rateLimiter options req res now st2))"
    using rel Cons.prems(2) by (intro Cons.IH) simp_all
  show ?case
    unfolding c run_Cons using out rest by simp
qed

lemma live_at_sweep:
  assumes "store_ok st"
  shows "live_at ts (map_of (sweep ts st) k) = live_at ts (map_of st k)"
  by (simp add: map_of_sweep [OF assms] live_at_def split: option.splits)

lemma run_length [simp]: "length (run calls st) = length calls"
  by (induction calls arbitrary: st) (auto split: prod.splits)

lemma run_live_window:
  assumes "map_of st key = Some e"
    and "\<forall>c \<in> set cs. fst c = options \<and> call_key c = Inr key \<and> call_now c < resetAt e"
    and "n < length cs"
  shows "(count e + 1 + int n \<le> maxRequests options \<longrightarrow> snd (run cs st ! n) = Next) \<and>
     (maxRequests options < count e + 1 + int n \<longrightarrow> denied_with 429 (snd (run cs st ! n)))"
  using assms
proof (induction cs arbitrary: st e n)
  case Nil
  then show ?case by simp
next
  case (Cons c cs)
  obtain req res now where c: "c = (options, req, res, now)"
    using Cons.prems(2) by (cases c) auto
  have key: "request_key req = Inr key" and live: "now < resetAt e"
    using Cons.prems(2) by (simp_all add: c call_key_def call_now_def)
  let ?e' = "e\<lparr>count := count e + 1\<rparr>"
  have step: "rateLimiter options req res now st = limit_key options key res now st"
    using key by (rule rateLimiter_resolved)
  have lk: "fst (limit_key options key res now st) = AList.update key ?e' st"
    and out: "snd (snd (limit_key options key res now st)) =
      (if maxRequests options < count e + 1
       then NextRateError \<lparr>errorMessage = error_message options (resetInSeconds e now),
              statusCode = 429, retryAfter = resetInSeconds e now\<rparr>
       else Next)"
    using Cons.prems(1) live by (simp_all add: limit_key_counts)
  show ?case
  proof (cases n)
    case 0
    then show ?thesis
      unfolding c run_Cons step by (simp add: out denied_with_def)
  next
    case (Suc m)
    have m: "m < length cs" using Cons.prems(3) Suc by simp
    have e': "map_of (AList.update key ?e' st) key = Some ?e'"
      by (simp add: update_conv')
    have rest: "\<forall>c \<in> set cs. fst c = options \<and> call_key c = Inr key \<and> call_now c < resetAt ?e'"
      using Cons.prems(2) by simp
    have "(count ?e' + 1 + int m \<le> maxRequests options \<longrightarrow>
            snd (run cs (AList.update key ?e' st) ! m) = Next) \<and>
          (maxRequests options < count ?e' + 1 + int m \<longrightarrow>
            denied_with 429 (snd (run cs (AList.update key ?e' st) ! m)))"
      using e' rest m by (rule Cons.IH)
    then show ?thesis
      unfolding c run_Cons step lk Suc by (simp add: add.commute add.left_commute)
  qed
qed

lemma run_projection:
  assumes "\<forall>k \<in> K. map_of st1 k = map_of st2 k"
    and "\<forall>c \<in> set calls. \<forall>k. call_key c = Inr k \<longrightarrow> (P c \<longleftrightarrow> k \<in> K)"
  shows "map snd (filter (\<lambda>x. P (fst x)) (zip calls (run calls st1))) = run (filter P calls) st2"
  using assms
proof (induction calls arbitrary: st1 st2)
  case Nil
  then show ?case by simp
next
  case (Cons c calls)
  obtain options req res now where c: "c = (options, req, res, now)"
    by (cases c) auto
  have later: "\<forall>c \<in> set calls. \<forall>k. call_key c = Inr k \<longrightarrow> (P c \<longleftrightarrow> k \<in> K)"
    using Cons.prems(2) by simp
  let ?s1 = "fst (rateLimiter options req res now st1)"
  let ?s2 = "fst (rateLimiter options req res now st2)"
  show ?case
  proof (cases "request_key req")
    case (Inl e)
    have "map snd (filter (\<lambda>x. P (fst x)) (zip calls (run calls st1))) = run (filter P calls) st2"
      using Cons.prems(1) later by (rule Cons.IH)
    then show ?thesis
      unfolding c by (simp add: rateLimiter_thrown [OF Inl] run_Cons del: run.simps)
  next
    case (Inr key)
    have PK: "P c \<longleftrightarrow> key \<in> K"
      using Cons.prems(2) Inr by (simp add: c call_key_def)
    show ?thesis
    proof (cases "P c")
      case True
      then have inK: "key \<in> K" using PK by simp
      have same: "map_of st1 key = map_of st2 key"
        using Cons.prems(1) inK by simp
      have out: "snd (rateLimiter options req res now st1) = snd (rateLimiter options req res now st2)"
        using Inr by (rule rateLimiter_output) (simp add: same)
      have "\<forall>k \<in> K. map_of ?s1 k = map_of ?s2 k"
        using Cons.prems(1) same by (simp add: rateLimiter_store [OF Inr])
      then have "map snd (filter (\<lambda>x. P (fst x)) (zip calls (run calls ?s1))) =
          run (filter P calls) ?s2"
        using later by (rule Cons.IH)
      then show ?thesis
        using True out unfolding c by (simp add: run_Cons del: run.simps)
    next
      case False
      then have notK: "key \<notin> K" using PK by simp
      have "\<forall>k \<in> K. map_of ?s1 k = map_of st2 k"
        using Cons.prems(1) notK by (auto simp: rateLimiter_store [OF Inr])
      then have "map snd (filter (\<lambda>x. P (fst x)) (zip calls (run calls ?s1))) =
          run (filter P calls) st2"
        using later by (rule Cons.IH)
      then show ?thesis
        using False unfolding c by (simp add: run_Cons del: run.simps)
    qed
  qed
qed

section \<open>The handler and its host\<close>

lemmas host_eval =
  rateLimiter_host_def rateLimiter_host_try_def then_step_def do_read_def do_set_def
  do_setHeader_def do_next_def

text \<open>
  On the host where nothing throws, the handler is \<^const>\<open>rateLimiter\<close>: the same table
  and response, and one call of \<open>next\<close>.
\<close>

lemma rateLimiter_host_quiet:
  "rateLimiter_host quiet_host options req res now st =
     (case rateLimiter options req res now st of
        (st', res', out) \<Rightarrow>
          (\<lparr>the_store = st', the_response = res', next_calls = [out]\<rparr>, None))"
proof (cases "request_key req")
  case (Inl e)
  then show ?thesis
    by (simp add: host_eval quiet_host_def rateLimiter_thrown)
next
  case (Inr key)
  show ?thesis
  proof (cases "opens_window st key now")
    case True
    then show ?thesis
      using Inr
      by (auto simp: host_eval quiet_host_def rateLimiter_resolved limit_key_opens
          opens_window_def Let_def split: option.splits)
  next
    case False
    then obtain old where o: "map_of st key = Some old" "now < resetAt old"
      using opens_window_cases [of st key now] by blast
    then show ?thesis
      using Inr
      by (simp add: host_eval quiet_host_def rateLimiter_resolved limit_key_counts Let_def)
  qed
qed









section \<open>The claims\<close>

text \<open>
  C1. Under a policy with \<open>maxRequests \<ge> 1\<close> and \<open>windowMs > 0\<close>, take requests of one
  identifier to one route (one key), all through that policy's handler: the first opens
  the window (no entry, or an expired one) and every later one arrives while the window
  lasts (its clock reading is before the first one's plus \<open>windowMs\<close>). Then request number
  \<open>n + 1\<close> of the sequence is admitted (\<open>next()\<close>) when \<open>n + 1 \<le> maxRequests\<close> and is
  denied with an error of status 429 when \<open>n + 1 > maxRequests\<close>.
\<close>

theorem quota_within_one_window:
  assumes "1 \<le> maxRequests options" and "0 < windowMs options"
    and "\<forall>c \<in> set (c0 # cs). fst c = options \<and> call_key c = Inr key"
    and "opens_window st key (call_now c0)"
    and "\<forall>c \<in> set cs. call_now c < call_now c0 + windowMs options"
    and "n < length (c0 # cs)"
  shows "(int n < maxRequests options \<longrightarrow> snd (run (c0 # cs) st ! n) = Next) \<and>
     (maxRequests options \<le> int n \<longrightarrow> denied_with 429 (snd (run (c0 # cs) st ! n)))"
proof -
  obtain req res now where c0: "c0 = (options, req, res, now)"
    using assms(3) by (cases c0) auto
  have key: "request_key req = Inr key" and opens: "opens_window st key now"
    using assms(3,4) by (simp_all add: c0 call_key_def call_now_def)
  let ?e = "\<lparr>count = 1, resetAt = now + windowMs options\<rparr>"
  have step: "rateLimiter options req res now st = limit_key options key res now st"
    using key by (rule rateLimiter_resolved)
  have lk: "fst (limit_key options key res now st) = AList.update key ?e st"
    and out: "snd (snd (limit_key options key res now st)) = Next"
    using opens by (simp_all add: limit_key_opens)
  show ?thesis
  proof (cases n)
    case 0
    then show ?thesis
      unfolding c0 run_Cons step using assms(1) by (simp add: out)
  next
    case (Suc m)
    have m: "m < length cs" using assms(6) Suc by simp
    have e: "map_of (AList.update key ?e st) key = Some ?e"
      by (simp add: update_conv')
    have rest: "\<forall>c \<in> set cs. fst c = options \<and> call_key c = Inr key \<and> call_now c < resetAt ?e"
      using assms(3,5) by (simp add: c0 call_now_def)
    have "(count ?e + 1 + int m \<le> maxRequests options \<longrightarrow>
            snd (run cs (AList.update key ?e st) ! m) = Next) \<and>
          (maxRequests options < count ?e + 1 + int m \<longrightarrow>
            denied_with 429 (snd (run cs (AList.update key ?e st) ! m)))"
      using e rest m by (rule run_live_window)
    then show ?thesis
      unfolding c0 run_Cons step lk Suc by simp
  qed
qed

theorem quota_within_one_window_witness:
  "1 \<le> maxRequests scenario_policy \<and> 0 < windowMs scenario_policy \<and>
   list_all (\<lambda>c. fst c = scenario_policy \<and> call_key c = Inr ''1.2.3.4:/x'')
     [(scenario_policy, request_from ''1.2.3.4'' ''/x'', [], 1000),
      (scenario_policy, request_from ''1.2.3.4'' ''/x'', [], 2000),
      (scenario_policy, request_from ''1.2.3.4'' ''/x'', [], 3000)] \<and>
   opens_window [] ''1.2.3.4:/x'' 1000 \<and>
   list_all (\<lambda>c. call_now c < 1000 + windowMs scenario_policy)
     [(scenario_policy, request_from ''1.2.3.4'' ''/x'', [], 2000),
      (scenario_policy, request_from ''1.2.3.4'' ''/x'', [], 3000)] \<and>
   snd (run [(scenario_policy, request_from ''1.2.3.4'' ''/x'', [], 1000),
             (scenario_policy, request_from ''1.2.3.4'' ''/x'', [], 2000),
             (scenario_policy, request_from ''1.2.3.4'' ''/x'', [], 3000)] [] ! 1) = Next \<and>
   denied_with 429
     (snd (run [(scenario_policy, request_from ''1.2.3.4'' ''/x'', [], 1000),
                (scenario_policy, request_from ''1.2.3.4'' ''/x'', [], 2000),
                (scenario_policy, request_from ''1.2.3.4'' ''/x'', [], 3000)] [] ! 2))"
proof -
  let ?c0 = "(scenario_policy, request_from ''1.2.3.4'' ''/x'', [], 1000) :: call"
  let ?cs = "[(scenario_policy, request_from ''1.2.3.4'' ''/x'', [], 2000),
              (scenario_policy, request_from ''1.2.3.4'' ''/x'', [], 3000)] :: call list"
  have a: "1 \<le> maxRequests scenario_policy" and b: "0 < windowMs scenario_policy"
    by (simp_all add: scenario_policy_def)
  have c: "\<forall>c \<in> set (?c0 # ?cs). fst c = scenario_policy \<and> call_key c = Inr ''1.2.3.4:/x''"
    by (simp add: request_from_def call_key_def request_key_def resolve_ip_def bind_read_def
        js_or_def make_key_def)
  have d: "opens_window [] ''1.2.3.4:/x'' (call_now ?c0)"
    by (simp add: opens_window_def)
  have e: "\<forall>c \<in> set ?cs. call_now c < call_now ?c0 + windowMs scenario_policy"
    by (simp add: call_now_def scenario_policy_def)
  have n1: "1 < length (?c0 # ?cs)" and n2: "2 < length (?c0 # ?cs)" by simp_all
  show ?thesis
    using a b c d e
      quota_within_one_window [OF a b c d e n1]
      quota_within_one_window [OF a b c d e n2]
    by (simp add: call_now_def scenario_policy_def)
qed

text \<open>
  C2, as the code has it. All limiter instances share \<open>rateLimitStore\<close>, and the key holds
  the identifier and the route, not the policy. In any interleaving of requests through
  several instances, if no request through instance \<open>A\<close> has the key of a request through
  another instance, then the responses and decisions of \<open>A\<close> are those it gives when its
  requests run alone: the other instances' requests neither feed nor change what \<open>A\<close>
  decides from.
\<close>

theorem instances_on_disjoint_keys:
  assumes "\<forall>a \<in> set calls. \<forall>b \<in> set calls.
      fst a = A \<and> fst b \<noteq> A \<longrightarrow> (\<forall>k. call_key a = Inr k \<longrightarrow> call_key b \<noteq> Inr k)"
  shows "map snd (filter (\<lambda>x. fst (fst x) = A) (zip calls (run calls st))) =
     run (filter (\<lambda>c. fst c = A) calls) st"
proof -
  let ?K = "{k. \<exists>a \<in> set calls. fst a = A \<and> call_key a = Inr k}"
  have 1: "\<forall>k \<in> ?K. map_of st k = map_of st k" by simp
  have 2: "\<forall>c \<in> set calls. \<forall>k. call_key c = Inr k \<longrightarrow> (fst c = A \<longleftrightarrow> k \<in> ?K)"
    using assms by blast
  show ?thesis
    using 1 2 by (rule run_projection [where P = "\<lambda>c. fst c = A"])
qed

theorem instances_on_disjoint_keys_witness:
  "list_all (\<lambda>a. list_all (\<lambda>b.
        fst a = authLimiter \<and> fst b \<noteq> authLimiter \<longrightarrow>
        (\<forall>k. call_key a = Inr k \<longrightarrow> call_key b \<noteq> Inr k))
      [(standardLimiter, request_from ''1.2.3.4'' ''/api'', [], 0),
       (authLimiter, request_from ''1.2.3.4'' ''/login'', [], 1),
       (standardLimiter, request_from ''1.2.3.4'' ''/api'', [], 2),
       (authLimiter, request_from ''1.2.3.4'' ''/login'', [], 3)])
     [(standardLimiter, request_from ''1.2.3.4'' ''/api'', [], 0),
      (authLimiter, request_from ''1.2.3.4'' ''/login'', [], 1),
      (standardLimiter, request_from ''1.2.3.4'' ''/api'', [], 2),
      (authLimiter, request_from ''1.2.3.4'' ''/login'', [], 3)] \<and>
   map snd (filter (\<lambda>x. fst (fst x) = authLimiter)
     (zip ([(standardLimiter, request_from ''1.2.3.4'' ''/api'', [], 0),
            (authLimiter, request_from ''1.2.3.4'' ''/login'', [], 1),
            (standardLimiter, request_from ''1.2.3.4'' ''/api'', [], 2),
            (authLimiter, request_from ''1.2.3.4'' ''/login'', [], 3)] :: call list)
       (run [(standardLimiter, request_from ''1.2.3.4'' ''/api'', [], 0),
             (authLimiter, request_from ''1.2.3.4'' ''/login'', [], 1),
             (standardLimiter, request_from ''1.2.3.4'' ''/api'', [], 2),
             (authLimiter, request_from ''1.2.3.4'' ''/login'', [], 3)] [])))
   = [([(''X-RateLimit-Limit'', ''10''), (''X-RateLimit-Remaining'', ''9''),
        (''X-RateLimit-Reset'', ''900001'')], Next),
      ([(''X-RateLimit-Limit'', ''10''), (''X-RateLimit-Remaining'', ''8''),
        (''X-RateLimit-Reset'', ''900001'')], Next)]"
proof -
  let ?calls = "[(standardLimiter, request_from ''1.2.3.4'' ''/api'', [], 0),
                 (authLimiter, request_from ''1.2.3.4'' ''/login'', [], 1),
                 (standardLimiter, request_from ''1.2.3.4'' ''/api'', [], 2),
                 (authLimiter, request_from ''1.2.3.4'' ''/login'', [], 3)] :: call list"
  have ne: "standardLimiter \<noteq> authLimiter"
    by (simp add: standardLimiter_def authLimiter_def)
  have k1: "call_key (standardLimiter, request_from ''1.2.3.4'' ''/api'', [], t) = Inr ''1.2.3.4:/api''"
    and k2: "call_key (authLimiter, request_from ''1.2.3.4'' ''/login'', [], t) = Inr ''1.2.3.4:/login''"
    for t
    by (simp_all add: request_from_def call_key_def request_key_def resolve_ip_def bind_read_def
        js_or_def make_key_def)
  have a: "\<forall>a \<in> set ?calls. \<forall>b \<in> set ?calls.
      fst a = authLimiter \<and> fst b \<noteq> authLimiter \<longrightarrow>
      (\<forall>k. call_key a = Inr k \<longrightarrow> call_key b \<noteq> Inr k)"
    using ne by (simp add: k1 k2)
  have alone: "run (filter (\<lambda>c. fst c = authLimiter) ?calls) []
   = [([(''X-RateLimit-Limit'', ''10''), (''X-RateLimit-Remaining'', ''9''),
        (''X-RateLimit-Reset'', ''900001'')], Next),
      ([(''X-RateLimit-Limit'', ''10''), (''X-RateLimit-Remaining'', ''8''),
        (''X-RateLimit-Reset'', ''900001'')], Next)]"
    using ne by (simp add: request_from_def handler_eval js_String_eval authLimiter_def)
  show ?thesis
    using a instances_on_disjoint_keys [OF a, of "[]"] unfolding alone
    by (simp only: list_all_iff simp_thms)
qed

text \<open>
  C2 as stated fails when two instances with different policies serve the same identifier
  and route: they read and update the same entry. After one request through a policy of
  five per minute, the first request through a policy of one per minute finds count 1,
  raises it to 2 and is denied; on its own it is admitted.
\<close>

theorem shared_key_counterexample:
  "\<lparr>windowMs = 60000, maxRequests = 1, message = None\<rparr>
     \<noteq> \<lparr>windowMs = 60000, maxRequests = 5, message = None\<rparr> \<and>
   snd (snd (rateLimiter \<lparr>windowMs = 60000, maxRequests = 1, message = None\<rparr>
     (request_from ''1.2.3.4'' ''/login'') [] 1 [])) = Next \<and>
   fst (rateLimiter \<lparr>windowMs = 60000, maxRequests = 5, message = None\<rparr>
     (request_from ''1.2.3.4'' ''/login'') [] 0 [])
     = [(''1.2.3.4:/login'', \<lparr>count = 1, resetAt = 60000\<rparr>)] \<and>
   rateLimiter \<lparr>windowMs = 60000, maxRequests = 1, message = None\<rparr>
     (request_from ''1.2.3.4'' ''/login'') [] 1
     [(''1.2.3.4:/login'', \<lparr>count = 1, resetAt = 60000\<rparr>)]
   = ([(''1.2.3.4:/login'', \<lparr>count = 2, resetAt = 60000\<rparr>)],
      [(''X-RateLimit-Limit'', ''1''), (''X-RateLimit-Remaining'', ''0''),
       (''X-RateLimit-Reset'', ''60000''), (''Retry-After'', ''60'')],
      NextRateError \<lparr>errorMessage = ''Too many requests, please try again in 60 seconds'',
        statusCode = 429, retryAfter = 60\<rparr>)"
  by (simp add: request_from_def handler_eval js_String_eval)

text \<open>
  C3, as the code has it. The key is the text \<open>identifier:route\<close>. For two requests whose
  (identifier, route) pairs differ, whose identifiers contain no \<open>/\<close> (as no IP address
  and not the sentinel does) and whose routes begin with \<open>/\<close>, the keys differ: processing
  the first request, under any policy, leaves the entry of the second one's key unchanged,
  and the second request gets the same response and the same decision as it would have got
  without the first. So exhausting one pair's quota never causes a denial for the other.
\<close>

theorem distinct_pairs_do_not_interfere:
  assumes "resolve_ip req1 = Inr i1" and "path req1 = Inr p1"
    and "resolve_ip req2 = Inr i2" and "path req2 = Inr p2"
    and "(i1, p1) \<noteq> (i2, p2)"
    and "CHR ''/'' \<notin> set i1" and "CHR ''/'' \<notin> set i2"
    and "take 1 p1 = ''/''" and "take 1 p2 = ''/''"
  shows "request_key req1 \<noteq> request_key req2 \<and>
     map_of (fst (rateLimiter options1 req1 res1 now1 st)) (make_key i2 p2)
       = map_of st (make_key i2 p2) \<and>
     snd (rateLimiter options2 req2 res2 now2 (fst (rateLimiter options1 req1 res1 now1 st)))
       = snd (rateLimiter options2 req2 res2 now2 st)"
proof -
  have k1: "request_key req1 = Inr (make_key i1 p1)"
    using assms(1,2) by (rule request_key_parts)
  have k2: "request_key req2 = Inr (make_key i2 p2)"
    using assms(3,4) by (rule request_key_parts)
  have ne: "make_key i1 p1 \<noteq> make_key i2 p2"
  proof
    assume "make_key i1 p1 = make_key i2 p2"
    from make_key_inj [OF assms(6,7,8,9) this] have "i1 = i2 \<and> p1 = p2" .
    with assms(5) show False by simp
  qed
  have ne': "request_key req1 \<noteq> Inr (make_key i2 p2)"
    unfolding k1 using ne by simp
  have ne'': "request_key req1 \<noteq> request_key req2"
    unfolding k1 k2 using ne by simp
  have fr: "map_of (fst (rateLimiter options1 req1 res1 now1 st)) (make_key i2 p2)
       = map_of st (make_key i2 p2)"
    using ne' by (rule rateLimiter_frame)
  have lv: "live_at now2 (map_of (fst (rateLimiter options1 req1 res1 now1 st)) (make_key i2 p2))
       = live_at now2 (map_of st (make_key i2 p2))"
    unfolding fr ..
  have out: "snd (rateLimiter options2 req2 res2 now2 (fst (rateLimiter options1 req1 res1 now1 st)))
       = snd (rateLimiter options2 req2 res2 now2 st)"
    using k2 lv by (rule rateLimiter_output)
  from ne'' fr out show ?thesis by blast
qed

theorem distinct_pairs_do_not_interfere_witness:
  "resolve_ip \<lparr>ip = Inr (Some ''1.2.3.4''), remoteAddress = Inr None, path = Inr ''/x''\<rparr>
      = Inr ''1.2.3.4'' \<and>
   resolve_ip \<lparr>ip = Inr (Some ''1.2.3.4''), remoteAddress = Inr None, path = Inr ''/y''\<rparr>
      = Inr ''1.2.3.4'' \<and>
   (''1.2.3.4'', ''/x'') \<noteq> (''1.2.3.4'', ''/y'') \<and> CHR ''/'' \<notin> set ''1.2.3.4'' \<and>
   take 1 ''/x'' = ''/'' \<and> take 1 ''/y'' = ''/'' \<and>
   snd (snd (rateLimiter \<lparr>windowMs = 1000, maxRequests = 1, message = None\<rparr>
     \<lparr>ip = Inr (Some ''1.2.3.4''), remoteAddress = Inr None, path = Inr ''/x''\<rparr> [] 1
     [(''1.2.3.4:/x'', \<lparr>count = 1, resetAt = 1000\<rparr>)])) \<noteq> Next \<and>
   snd (rateLimiter \<lparr>windowMs = 1000, maxRequests = 1, message = None\<rparr>
     \<lparr>ip = Inr (Some ''1.2.3.4''), remoteAddress = Inr None, path = Inr ''/y''\<rparr> [] 2
     (fst (rateLimiter \<lparr>windowMs = 1000, maxRequests = 1, message = None\<rparr>
       \<lparr>ip = Inr (Some ''1.2.3.4''), remoteAddress = Inr None, path = Inr ''/x''\<rparr> [] 1
       [(''1.2.3.4:/x'', \<lparr>count = 1, resetAt = 1000\<rparr>)])))
   = ([(''X-RateLimit-Limit'', ''1''), (''X-RateLimit-Remaining'', ''0''),
       (''X-RateLimit-Reset'', ''1002'')], Next)"
proof -
  let ?o = "\<lparr>windowMs = 1000, maxRequests = 1, message = None\<rparr>"
  let ?x = "\<lparr>ip = Inr (Some ''1.2.3.4''), remoteAddress = Inr None, path = Inr ''/x''\<rparr>"
  let ?y = "\<lparr>ip = Inr (Some ''1.2.3.4''), remoteAddress = Inr None, path = Inr ''/y''\<rparr>"
  let ?st = "[(''1.2.3.4:/x'', \<lparr>count = 1, resetAt = 1000\<rparr>)]"
  have a: "resolve_ip ?x = Inr ''1.2.3.4''" and b: "path ?x = Inr ''/x''"
    and c: "resolve_ip ?y = Inr ''1.2.3.4''" and d: "path ?y = Inr ''/y''"
    by (simp_all add: resolve_ip_def bind_read_def js_or_def)
  have e: "(''1.2.3.4'', ''/x'') \<noteq> (''1.2.3.4'', ''/y'')" by simp
  have f: "CHR ''/'' \<notin> set ''1.2.3.4''" by simp
  have g: "take 1 ''/x'' = ''/''" and h: "take 1 ''/y'' = ''/''" by simp_all
  have den: "snd (snd (rateLimiter ?o ?x [] 1 ?st)) \<noteq> Next"
    by (simp add: handler_eval js_String_eval)
  have alone: "snd (rateLimiter ?o ?y [] 2 ?st)
     = ([(''X-RateLimit-Limit'', ''1''), (''X-RateLimit-Remaining'', ''0''),
         (''X-RateLimit-Reset'', ''1002'')], Next)"
    by (simp add: handler_eval js_String_eval)
  show ?thesis
    using a c e f g h den alone
      distinct_pairs_do_not_interfere [OF a b c d e f f g h, of ?o "[]" 1 ?st ?o "[]" 2]
    by simp
qed

text \<open>
  C3 as stated fails for identifiers that are not addresses (\<open>req.ip\<close> taken from a
  forwarded header): the pairs (\<open>1.2.3.4\<close>, \<open>/a:/b\<close>) and (\<open>1.2.3.4:/a\<close>, \<open>/b\<close>) differ
  and share the key \<open>1.2.3.4:/a:/b\<close>; with a ceiling of one request, the request of the
  second pair is admitted on its own and denied after one request of the first pair.
\<close>

theorem colliding_key_counterexample:
  "resolve_ip \<lparr>ip = Inr (Some ''1.2.3.4''), remoteAddress = Inr None, path = Inr ''/a:/b''\<rparr>
      = Inr ''1.2.3.4'' \<and>
   resolve_ip \<lparr>ip = Inr (Some ''1.2.3.4:/a''), remoteAddress = Inr None, path = Inr ''/b''\<rparr>
      = Inr ''1.2.3.4:/a'' \<and>
   (''1.2.3.4'', ''/a:/b'') \<noteq> (''1.2.3.4:/a'', ''/b'') \<and>
   snd (snd (rateLimiter \<lparr>windowMs = 60000, maxRequests = 1, message = None\<rparr>
     \<lparr>ip = Inr (Some ''1.2.3.4:/a''), remoteAddress = Inr None, path = Inr ''/b''\<rparr> [] 1 []))
     = Next \<and>
   snd (snd (rateLimiter \<lparr>windowMs = 60000, maxRequests = 1, message = None\<rparr>
     \<lparr>ip = Inr (Some ''1.2.3.4:/a''), remoteAddress = Inr None, path = Inr ''/b''\<rparr> [] 1
     (fst (rateLimiter \<lparr>windowMs = 60000, maxRequests = 1, message = None\<rparr>
       \<lparr>ip = Inr (Some ''1.2.3.4''), remoteAddress = Inr None, path = Inr ''/a:/b''\<rparr> [] 0 []))))
     = NextRateError \<lparr>errorMessage = ''Too many requests, please try again in 60 seconds'',
         statusCode = 429, retryAfter = 60\<rparr>"
  by (simp add: handler_eval js_String_eval)

text \<open>
  C4. A request whose key has no entry, or whose entry's \<open>resetAt\<close> has elapsed at the time
  of the request, starts a fresh window: afterwards the table holds \<open>count = 1\<close> and
  \<open>resetAt = now + windowMs\<close> for the key, and the handler calls \<open>next()\<close> with no error
  (for a policy with \<open>maxRequests \<ge> 1\<close>).
\<close>

theorem fresh_window_starts:
  assumes "1 \<le> maxRequests options"
    and "request_key req = Inr key"
    and "opens_window st key now"
  shows "map_of (fst (rateLimiter options req res now st)) key =
           Some \<lparr>count = 1, resetAt = now + windowMs options\<rparr> \<and>
         snd (snd (rateLimiter options req res now st)) = Next"
  using assms by (simp add: rateLimiter_resolved limit_key_opens update_conv')

theorem fresh_window_starts_witness:
  "1 \<le> maxRequests standardLimiter \<and>
   request_key \<lparr>ip = Inr (Some ''10.0.0.7''), remoteAddress = Inr None, path = Inr ''/api''\<rparr>
     = Inr ''10.0.0.7:/api'' \<and>
   opens_window [(''10.0.0.7:/api'', \<lparr>count = 60, resetAt = 5000\<rparr>)] ''10.0.0.7:/api'' 5000 \<and>
   map_of (fst (rateLimiter standardLimiter
       \<lparr>ip = Inr (Some ''10.0.0.7''), remoteAddress = Inr None, path = Inr ''/api''\<rparr> [] 5000
       [(''10.0.0.7:/api'', \<lparr>count = 60, resetAt = 5000\<rparr>)])) ''10.0.0.7:/api''
     = Some \<lparr>count = 1, resetAt = 65000\<rparr> \<and>
   snd (snd (rateLimiter standardLimiter
       \<lparr>ip = Inr (Some ''10.0.0.7''), remoteAddress = Inr None, path = Inr ''/api''\<rparr> [] 5000
       [(''10.0.0.7:/api'', \<lparr>count = 60, resetAt = 5000\<rparr>)])) = Next"
proof -
  have a: "1 \<le> maxRequests standardLimiter" by (simp add: standardLimiter_def)
  have b: "request_key \<lparr>ip = Inr (Some ''10.0.0.7''), remoteAddress = Inr None, path = Inr ''/api''\<rparr>
     = Inr ''10.0.0.7:/api''"
    by (simp add: request_key_def resolve_ip_def bind_read_def js_or_def make_key_def)
  have c: "opens_window [(''10.0.0.7:/api'', \<lparr>count = 60, resetAt = 5000\<rparr>)] ''10.0.0.7:/api'' 5000"
    by (simp add: opens_window_def)
  show ?thesis
    using a b c fresh_window_starts [OF a b c, of "[]"] by (simp add: standardLimiter_def)
qed

text \<open>
  C5. Under a policy with \<open>maxRequests \<ge> 1\<close>, after a request whose key was derived (admitted
  or denied), the table holds an entry for the key and the response carries
  \<open>X-RateLimit-Remaining\<close> = the decimal form of \<open>max(0, maxRequests - count)\<close> for that
  entry's count, a non-negative integer, \<open>X-RateLimit-Limit\<close> = \<open>maxRequests\<close> and
  \<open>X-RateLimit-Reset\<close> = the entry's \<open>resetAt\<close>.
\<close>

theorem quota_headers:
  assumes "1 \<le> maxRequests options"
    and "request_key req = Inr key"
    and "rateLimiter options req res now st = (st', res', out)"
  shows "\<exists>entry. map_of st' key = Some entry \<and>
     getHeader res' ''X-RateLimit-Remaining''
       = Some (js_String (max 0 (maxRequests options - count entry))) \<and>
     0 \<le> max 0 (maxRequests options - count entry) \<and>
     getHeader res' ''X-RateLimit-Limit'' = Some (js_String (maxRequests options)) \<and>
     getHeader res' ''X-RateLimit-Reset'' = Some (js_String (resetAt entry))"
proof -
  have lk: "limit_key options key res now st = (st', res', out)"
    using assms by (simp add: rateLimiter_resolved)
  show ?thesis
  proof (cases "opens_window st key now")
    case True
    have "max 0 (maxRequests options - 1) = maxRequests options - 1"
      using assms(1) by simp
    then show ?thesis
      using lk True by (auto simp: limit_key_opens getHeader_setHeader update_conv')
  next
    case False
    then obtain old where o: "map_of st key = Some old" "now < resetAt old"
      using opens_window_cases [of st key now] by blast
    show ?thesis
      using lk o by (auto simp: limit_key_counts getHeader_setHeader update_conv')
  qed
qed

theorem quota_headers_witness:
  "1 \<le> maxRequests \<lparr>windowMs = 60000, maxRequests = 2, message = None\<rparr> \<and>
   request_key \<lparr>ip = Inr (Some ''1.2.3.4''), remoteAddress = Inr None, path = Inr ''/x''\<rparr>
     = Inr ''1.2.3.4:/x'' \<and>
   rateLimiter \<lparr>windowMs = 60000, maxRequests = 2, message = None\<rparr>
     \<lparr>ip = Inr (Some ''1.2.3.4''), remoteAddress = Inr None, path = Inr ''/x''\<rparr> [] 100
     [(''1.2.3.4:/x'', \<lparr>count = 2, resetAt = 60000\<rparr>)]
   = ([(''1.2.3.4:/x'', \<lparr>count = 3, resetAt = 60000\<rparr>)],
      [(''X-RateLimit-Limit'', ''2''), (''X-RateLimit-Remaining'', ''0''),
       (''X-RateLimit-Reset'', ''60000''), (''Retry-After'', ''60'')],
      NextRateError \<lparr>errorMessage = ''Too many requests, please try again in 60 seconds'',
        statusCode = 429, retryAfter = 60\<rparr>) \<and>
   (\<exists>entry. map_of [(''1.2.3.4:/x'', \<lparr>count = 3, resetAt = 60000\<rparr>)] ''1.2.3.4:/x'' = Some entry \<and>
      getHeader [(''X-RateLimit-Limit'', ''2''), (''X-RateLimit-Remaining'', ''0''),
       (''X-RateLimit-Reset'', ''60000''), (''Retry-After'', ''60'')] ''X-RateLimit-Remaining''
        = Some (js_String (max 0 (2 - count entry))))"
proof -
  let ?o = "\<lparr>windowMs = 60000, maxRequests = 2, message = None\<rparr>"
  let ?r = "\<lparr>ip = Inr (Some ''1.2.3.4''), remoteAddress = Inr None, path = Inr ''/x''\<rparr>"
  have a: "1 \<le> maxRequests ?o" by simp
  have b: "request_key ?r = Inr ''1.2.3.4:/x''"
    by (simp add: request_key_def resolve_ip_def bind_read_def js_or_def make_key_def)
  have c: "rateLimiter ?o ?r [] 100 [(''1.2.3.4:/x'', \<lparr>count = 2, resetAt = 60000\<rparr>)]
   = ([(''1.2.3.4:/x'', \<lparr>count = 3, resetAt = 60000\<rparr>)],
      [(''X-RateLimit-Limit'', ''2''), (''X-RateLimit-Remaining'', ''0''),
       (''X-RateLimit-Reset'', ''60000''), (''Retry-After'', ''60'')],
      NextRateError \<lparr>errorMessage = ''Too many requests, please try again in 60 seconds'',
        statusCode = 429, retryAfter = 60\<rparr>)"
    by (simp add: handler_eval js_String_eval)
  show ?thesis
    using a b c quota_headers [OF a b c] by simp
qed

text \<open>
  C6, as the code has it. When a request is denied, \<open>next\<close> receives an error (it is not
  thrown) with status 429 and \<open>retryAfter = ceil((resetAt - now) / 1000)\<close>; the
  \<open>Retry-After\<close> header carries the same integer; the message is the configured one when
  a non-empty message was configured, and otherwise (no message, or the empty string) the
  default message with that number of seconds in it.
\<close>

theorem denial_error:
  assumes "request_key req = Inr key"
    and "rateLimiter options req res now st = (st', res', NextRateError err)"
  shows "\<exists>entry. map_of st' key = Some entry \<and> maxRequests options < count entry \<and>
     statusCode err = 429 \<and>
     retryAfter err = \<lceil>(of_int (resetAt entry - now) :: rat) / 1000\<rceil> \<and>
     (case message options of
        None \<Rightarrow> errorMessage err =
          ''Too many requests, please try again in '' @ js_String (retryAfter err) @ '' seconds''
      | Some m \<Rightarrow> errorMessage err =
          (if m = [] then
             ''Too many requests, please try again in '' @ js_String (retryAfter err) @ '' seconds''
           else m)) \<and>
     getHeader res' ''Retry-After'' = Some (js_String (retryAfter err))"
proof -
  have lk: "limit_key options key res now st = (st', res', NextRateError err)"
    using assms by (simp add: rateLimiter_resolved)
  have "\<not> opens_window st key now"
    using lk by (auto simp: limit_key_opens)
  then obtain old where o: "map_of st key = Some old" "now < resetAt old"
    using opens_window_cases [of st key now] by blast
  have 1: "maxRequests options < count old + 1"
    using lk o by (auto simp: limit_key_counts split: if_splits)
  have 2: "st' = AList.update key (old\<lparr>count := count old + 1\<rparr>) st"
    and 3: "err = \<lparr>errorMessage = error_message options (resetInSeconds old now),
             statusCode = 429, retryAfter = resetInSeconds old now\<rparr>"
    and 4: "res' = setHeader ''Retry-After'' (js_String (resetInSeconds old now))
       (setHeader ''X-RateLimit-Reset'' (js_String (resetAt old))
         (setHeader ''X-RateLimit-Remaining'' (js_String (max 0 (maxRequests options - (count old + 1))))
           (setHeader ''X-RateLimit-Limit'' (js_String (maxRequests options)) res)))"
    using lk o 1 by (simp_all add: limit_key_counts)
  have 5: "map_of st' key = Some (old\<lparr>count := count old + 1\<rparr>)"
    by (simp add: 2 update_conv')
  have 6: "(case message options of
        None \<Rightarrow> errorMessage err =
          ''Too many requests, please try again in '' @ js_String (retryAfter err) @ '' seconds''
      | Some m \<Rightarrow> errorMessage err =
          (if m = [] then
             ''Too many requests, please try again in '' @ js_String (retryAfter err) @ '' seconds''
           else m))"
    by (auto simp: 3 error_message_def default_message_def split: option.splits)
  have 7: "retryAfter err = \<lceil>(of_int (resetAt old - now) :: rat) / 1000\<rceil>"
    by (simp add: 3 resetInSeconds_def Math_ceil_def)
  have 8: "getHeader res' ''Retry-After'' = Some (js_String (retryAfter err))"
    by (simp add: 3 4 getHeader_setHeader)
  show ?thesis
    using 1 5 6 7 8 by (simp add: 3)
qed

theorem denial_error_witness:
  "request_key \<lparr>ip = Inr (Some ''1.2.3.4''), remoteAddress = Inr None, path = Inr ''/x''\<rparr>
     = Inr ''1.2.3.4:/x'' \<and>
   rateLimiter \<lparr>windowMs = 60000, maxRequests = 2, message = Some ''Slow down''\<rparr>
     \<lparr>ip = Inr (Some ''1.2.3.4''), remoteAddress = Inr None, path = Inr ''/x''\<rparr> [] 1500
     [(''1.2.3.4:/x'', \<lparr>count = 2, resetAt = 60000\<rparr>)]
   = ([(''1.2.3.4:/x'', \<lparr>count = 3, resetAt = 60000\<rparr>)],
      [(''X-RateLimit-Limit'', ''2''), (''X-RateLimit-Remaining'', ''0''),
       (''X-RateLimit-Reset'', ''60000''), (''Retry-After'', ''59'')],
      NextRateError \<lparr>errorMessage = ''Slow down'', statusCode = 429, retryAfter = 59\<rparr>) \<and>
   (\<exists>entry. map_of [(''1.2.3.4:/x'', \<lparr>count = 3, resetAt = 60000\<rparr>)] ''1.2.3.4:/x'' = Some entry \<and>
      (59 :: int) = \<lceil>(of_int (resetAt entry - 1500) :: rat) / 1000\<rceil>)"
proof -
  let ?o = "\<lparr>windowMs = 60000, maxRequests = 2, message = Some ''Slow down''\<rparr>"
  let ?r = "\<lparr>ip = Inr (Some ''1.2.3.4''), remoteAddress = Inr None, path = Inr ''/x''\<rparr>"
  have b: "request_key ?r = Inr ''1.2.3.4:/x''"
    by (simp add: request_key_def resolve_ip_def bind_read_def js_or_def make_key_def)
  have c: "rateLimiter ?o ?r [] 1500 [(''1.2.3.4:/x'', \<lparr>count = 2, resetAt = 60000\<rparr>)]
   = ([(''1.2.3.4:/x'', \<lparr>count = 3, resetAt = 60000\<rparr>)],
      [(''X-RateLimit-Limit'', ''2''), (''X-RateLimit-Remaining'', ''0''),
       (''X-RateLimit-Reset'', ''60000''), (''Retry-After'', ''59'')],
      NextRateError \<lparr>errorMessage = ''Slow down'', statusCode = 429, retryAfter = 59\<rparr>)"
    by (simp add: handler_eval js_String_eval)
  show ?thesis
    using b c denial_error [OF b c] by simp
qed

text \<open>
  C6 as stated fails for a configured message that is the empty string: \<open>||\<close> treats it as
  absent, and the error carries the default message.
\<close>

theorem empty_message_counterexample:
  "message \<lparr>windowMs = 1000, maxRequests = 1, message = Some ''''\<rparr> = Some '''' \<and>
   snd (snd (rateLimiter \<lparr>windowMs = 1000, maxRequests = 1, message = Some ''''\<rparr>
     \<lparr>ip = Inr (Some ''1.2.3.4''), remoteAddress = Inr None, path = Inr ''/x''\<rparr> [] 500
     [(''1.2.3.4:/x'', \<lparr>count = 1, resetAt = 1000\<rparr>)]))
   = NextRateError \<lparr>errorMessage = ''Too many requests, please try again in 1 seconds'',
       statusCode = 429, retryAfter = 1\<rparr> \<and>
   ''Too many requests, please try again in 1 seconds'' \<noteq> ''''"
  by (simp add: handler_eval js_String_eval)

text \<open>
  C7. On a table (distinct keys), a sweep at time \<open>ts\<close> changes nothing of what follows: for
  every sequence of later requests (clock readings not before \<open>ts\<close>), through any handlers,
  the responses (all headers) and the calls of \<open>next\<close> are the same from the swept table as
  from the table left alone.
\<close>

theorem sweep_preserves_decisions:
  assumes "store_ok st" and "\<forall>c \<in> set calls. ts \<le> call_now c"
  shows "run calls (sweep ts st) = run calls st"
proof -
  have "\<And>k. live_at ts (map_of (sweep ts st) k) = live_at ts (map_of st k)"
    using assms(1) by (rule live_at_sweep)
  then show ?thesis
    using assms(2) by (rule run_same_live)
qed

theorem sweep_preserves_decisions_witness:
  "store_ok [(''1.2.3.4:/x'', \<lparr>count = 2, resetAt = 500\<rparr>),
             (''5.6.7.8:/x'', \<lparr>count = 2, resetAt = 60000\<rparr>)] \<and>
   list_all (\<lambda>c. 1000 \<le> call_now c)
     [(scenario_policy, request_from ''1.2.3.4'' ''/x'', [], 1000),
      (scenario_policy, request_from ''5.6.7.8'' ''/x'', [], 1500)] \<and>
   sweep 1000 [(''1.2.3.4:/x'', \<lparr>count = 2, resetAt = 500\<rparr>),
               (''5.6.7.8:/x'', \<lparr>count = 2, resetAt = 60000\<rparr>)]
     = [(''5.6.7.8:/x'', \<lparr>count = 2, resetAt = 60000\<rparr>)] \<and>
   run [(scenario_policy, request_from ''1.2.3.4'' ''/x'', [], 1000),
        (scenario_policy, request_from ''5.6.7.8'' ''/x'', [], 1500)]
     (sweep 1000 [(''1.2.3.4:/x'', \<lparr>count = 2, resetAt = 500\<rparr>),
                  (''5.6.7.8:/x'', \<lparr>count = 2, resetAt = 60000\<rparr>)])
   = run [(scenario_policy, request_from ''1.2.3.4'' ''/x'', [], 1000),
          (scenario_policy, request_from ''5.6.7.8'' ''/x'', [], 1500)]
       [(''1.2.3.4:/x'', \<lparr>count = 2, resetAt = 500\<rparr>),
        (''5.6.7.8:/x'', \<lparr>count = 2, resetAt = 60000\<rparr>)]"
proof -
  let ?st = "[(''1.2.3.4:/x'', \<lparr>count = 2, resetAt = 500\<rparr>),
              (''5.6.7.8:/x'', \<lparr>count = 2, resetAt = 60000\<rparr>)]"
  let ?calls = "[(scenario_policy, request_from ''1.2.3.4'' ''/x'', [], 1000),
                 (scenario_policy, request_from ''5.6.7.8'' ''/x'', [], 1500)] :: call list"
  have a: "store_ok ?st" by (simp add: store_ok_def)
  have b: "\<forall>c \<in> set ?calls. 1000 \<le> call_now c" by (simp add: call_now_def)
  have c: "sweep 1000 ?st = [(''5.6.7.8:/x'', \<lparr>count = 2, resetAt = 60000\<rparr>)]"
    by (simp add: sweep_def sweep_entry_def)
  show ?thesis
    using a b sweep_preserves_decisions [OF a b] unfolding c by (simp add: call_now_def)
qed

text \<open>
  C8. On a table (distinct keys) and at any sweep time \<open>now\<close>, the sweep keeps exactly
  the entries whose \<open>resetAt\<close> lies after \<open>now\<close>, in their order and unchanged, and removes
  exactly those whose \<open>resetAt\<close> has passed (\<open>resetAt \<le> now\<close>): a key looked up after the
  sweep yields its old entry when that entry is still live and nothing otherwise.
\<close>

theorem sweep_removes_exactly_expired:
  assumes "store_ok st"
  shows "sweep now st = filter (\<lambda>ke. now < resetAt (snd ke)) st \<and>
     map_of (sweep now st) k =
       (case map_of st k of None \<Rightarrow> None
        | Some e \<Rightarrow> if resetAt e \<le> now then None else Some e)"
proof -
  have "(\<lambda>ke :: string \<times> RateLimitEntry. \<not> resetAt (snd ke) \<le> now) = (\<lambda>ke. now < resetAt (snd ke))"
    by (simp add: not_le)
  then show ?thesis
    using assms sweep_filter [OF assms, of now] map_of_sweep [OF assms, of now k] by simp
qed

theorem sweep_removes_exactly_expired_witness:
  "store_ok [(''a:/x'', \<lparr>count = 3, resetAt = 5\<rparr>), (''b:/x'', \<lparr>count = 7, resetAt = 20\<rparr>),
            (''c:/y'', \<lparr>count = 1, resetAt = 10\<rparr>)] \<and>
   sweep 10 [(''a:/x'', \<lparr>count = 3, resetAt = 5\<rparr>), (''b:/x'', \<lparr>count = 7, resetAt = 20\<rparr>),
             (''c:/y'', \<lparr>count = 1, resetAt = 10\<rparr>)]
     = [(''b:/x'', \<lparr>count = 7, resetAt = 20\<rparr>)] \<and>
   map_of (sweep 10 [(''a:/x'', \<lparr>count = 3, resetAt = 5\<rparr>), (''b:/x'', \<lparr>count = 7, resetAt = 20\<rparr>),
             (''c:/y'', \<lparr>count = 1, resetAt = 10\<rparr>)]) ''b:/x''
     = Some \<lparr>count = 7, resetAt = 20\<rparr>"
proof -
  have ok: "store_ok [(''a:/x'', \<lparr>count = 3, resetAt = 5\<rparr>), (''b:/x'', \<lparr>count = 7, resetAt = 20\<rparr>),
            (''c:/y'', \<lparr>count = 1, resetAt = 10\<rparr>)]"
    by (simp add: store_ok_def)
  show ?thesis
    using ok sweep_removes_exactly_expired [OF ok, of 10 "''b:/x''"] by simp
qed








end
